theory Spec2Isabelle
  imports Main "HOL-Library.Word"
begin

section \<open>The non-blocking buzzer pattern sequencer\<close>

text \<open>
  A shallow embedding of the class \<open>IndustrialBuzzer\<close> of
  \<open>examples/Tft_Buzzer_Buttons/Tft_Buzzer_Buttons.ino\<close>. The sketch for the
  serial console holds a second copy of the class that differs only in having no
  \<open>currentName\<close> field; the copy embedded here is the one of the TFT sketch.

  The target is an ESP32: \<open>unsigned long\<close> and the value of \<open>millis()\<close> are
  32-bit words, \<open>uint16_t\<close> and \<open>uint8_t\<close> are 16-bit and 8-bit words, and all
  arithmetic on them wraps around.
\<close>

type_synonym u8 = "8 word"
type_synonym u16 = "16 word"
type_synonym u32 = "32 word"

subsection \<open>Data\<close>

text \<open>\<^verbatim>\<open>struct BuzzerNote { uint16_t frequency; uint16_t duration; uint8_t volume; };\<close>\<close>

record BuzzerNote =
  frequency :: u16
  duration :: u16
  volume :: u8

text \<open>
  The sink: the two LEDC calls the class makes after \<open>begin()\<close>, each with the
  channel and the value it is given (both parameters are \<open>uint32_t\<close> in the
  Arduino core, so the 16-bit frequency and the 8-bit volume are widened).
\<close>

datatype ledc = LedcWriteTone u8 u32 | LedcWrite u8 u32

text \<open>
  A pattern is a pointer to the first element of an array of notes. The model keeps the
  array as a list; \<open>None\<close> is \<open>nullptr\<close>. Reading an element beyond the end of the
  array, or through the null pointer, is undefined in C++ and is a \<open>fault\<close> here.
\<close>

datatype fault = OutOfBounds | NullPattern

record IndustrialBuzzer =
  pin :: u8
  channel :: u8
  currentPattern :: "BuzzerNote list option"
  patternIndex :: u8
  noteStartTime :: u32
  isPlaying :: bool
  repeat :: bool
  currentName :: string

text \<open>The read \<open>currentPattern[patternIndex]\<close> of one array element.\<close>

definition note_at :: "BuzzerNote list \<Rightarrow> u8 \<Rightarrow> BuzzerNote option" where
  "note_at p i = (if unat i < length p then Some (p ! unat i) else None)"

subsection \<open>Operations\<close>

text \<open>The constructor.\<close>

definition IndustrialBuzzer_new :: "u8 \<Rightarrow> u8 \<Rightarrow> IndustrialBuzzer" where
  "IndustrialBuzzer_new buzzerPin pwmChannel =
     \<lparr>pin = buzzerPin, channel = pwmChannel, currentPattern = None, patternIndex = 0,
      noteStartTime = 0, isPlaying = False, repeat = False, currentName = []\<rparr>"

text \<open>
  \<^verbatim>\<open>
  void playCurrentNote() {
    BuzzerNote* note = &currentPattern[patternIndex];
    if (note->frequency > 0) {
      ledcWriteTone(channel, note->frequency);
      ledcWrite(channel, note->volume);
    } else {
      ledcWrite(channel, 0);
    }
  }
  \<close>
  The function changes no field; the model returns the commands sent to the sink.
\<close>

definition playCurrentNote :: "IndustrialBuzzer \<Rightarrow> fault + ledc list" where
  "playCurrentNote s =
     (case currentPattern s of
        None \<Rightarrow> Inl NullPattern
      | Some p \<Rightarrow>
          (case note_at p (patternIndex s) of
             None \<Rightarrow> Inl OutOfBounds
           | Some note \<Rightarrow>
               if frequency note > 0
               then Inr [LedcWriteTone (channel s) (ucast (frequency note)),
                         LedcWrite (channel s) (ucast (volume note))]
               else Inr [LedcWrite (channel s) 0]))"

text \<open>
  \<^verbatim>\<open>
  void playPattern(BuzzerNote* pattern, String name, bool repeatPattern = false) {
    currentPattern = pattern;
    currentName = name;
    patternIndex = 0;
    isPlaying = true;
    repeat = repeatPattern;
    noteStartTime = millis();
    playCurrentNote();
  }
  \<close>
  The argument \<open>now\<close> is the value \<open>millis()\<close> returns in the call.
\<close>

definition playPattern ::
  "BuzzerNote list \<Rightarrow> string \<Rightarrow> bool \<Rightarrow> u32 \<Rightarrow> IndustrialBuzzer
     \<Rightarrow> fault + (IndustrialBuzzer \<times> ledc list)" where
  "playPattern pattern name repeatPattern now s =
     (let s' = s\<lparr>currentPattern := Some pattern, currentName := name, patternIndex := 0,
                  isPlaying := True, repeat := repeatPattern, noteStartTime := now\<rparr>
      in case playCurrentNote s' of
           Inl e \<Rightarrow> Inl e
         | Inr out \<Rightarrow> Inr (s', out))"

text \<open>
  \<^verbatim>\<open>
  void stop() {
    isPlaying = false;
    repeat = false;
    currentName = "";
    ledcWriteTone(channel, 0);
    ledcWrite(channel, 0);
  }
  \<close>
\<close>

definition stop :: "IndustrialBuzzer \<Rightarrow> IndustrialBuzzer \<times> ledc list" where
  "stop s =
     (s\<lparr>isPlaying := False, repeat := False, currentName := []\<rparr>,
      [LedcWriteTone (channel s) 0, LedcWrite (channel s) 0])"

text \<open>
  \<^verbatim>\<open>
  void update() {
    if (!isPlaying || currentPattern == nullptr) {
      return;
    }
    BuzzerNote* note = &currentPattern[patternIndex];
    if (millis() - noteStartTime >= note->duration) {
      patternIndex++;
      note = &currentPattern[patternIndex];
      if (note->frequency == 0 && note->duration == 0) {
        if (repeat) {
          patternIndex = 0;
          note = &currentPattern[patternIndex];
        } else {
          stop();
          return;
        }
      }
      noteStartTime = millis();
      playCurrentNote();
    }
  }
  \<close>
  The argument \<open>now\<close> is the value of \<open>millis()\<close> during the call: the two reads
  of the clock in one call are a few instructions apart and are taken to return the same
  millisecond. The subtraction and the comparison are those of \<open>unsigned long\<close>; the
  increment of \<open>patternIndex\<close> is that of \<open>uint8_t\<close>. The body has an \<open>if\<close> and
  no loop.
\<close>

definition update :: "u32 \<Rightarrow> IndustrialBuzzer \<Rightarrow> fault + (IndustrialBuzzer \<times> ledc list)" where
  "update now s =
     (if \<not> isPlaying s \<or> currentPattern s = None then Inr (s, [])
      else
        case currentPattern s of
          None \<Rightarrow> Inr (s, [])
        | Some p \<Rightarrow>
            (case note_at p (patternIndex s) of
               None \<Rightarrow> Inl OutOfBounds
             | Some note \<Rightarrow>
                 if now - noteStartTime s \<ge> ucast (duration note) then
                   (let s1 = s\<lparr>patternIndex := patternIndex s + 1\<rparr> in
                    case note_at p (patternIndex s1) of
                      None \<Rightarrow> Inl OutOfBounds
                    | Some note' \<Rightarrow>
                        if frequency note' = 0 \<and> duration note' = 0 then
                          if repeat s1 then
                            (let s2 = s1\<lparr>patternIndex := 0\<rparr>;
                                 s3 = s2\<lparr>noteStartTime := now\<rparr>
                             in case playCurrentNote s3 of
                                  Inl e \<Rightarrow> Inl e
                                | Inr out \<Rightarrow> Inr (s3, out))
                          else Inr (stop s1)
                        else
                          (let s3 = s1\<lparr>noteStartTime := now\<rparr>
                           in case playCurrentNote s3 of
                                Inl e \<Rightarrow> Inl e
                              | Inr out \<Rightarrow> Inr (s3, out)))
                 else Inr (s, [])))"

text \<open>\<^verbatim>\<open>bool isActive() { return isPlaying; }\<close>\<close>

definition isActive :: "IndustrialBuzzer \<Rightarrow> bool" where
  "isActive s = isPlaying s"

text \<open>
  The callers poll: \<open>loop()\<close> calls \<open>buzzer.update()\<close> once per iteration, and
  \<open>setup()\<close> calls it until \<open>isActive()\<close> is false. \<open>poll_all ts s\<close> is the run of
  one \<open>update\<close> call per clock value of \<open>ts\<close>, in order, collecting what the sink
  receives; a fault ends the run.
\<close>

fun poll_all :: "u32 list \<Rightarrow> IndustrialBuzzer \<Rightarrow> fault + (IndustrialBuzzer \<times> ledc list)" where
  "poll_all [] s = Inr (s, [])"
| "poll_all (t # ts) s =
     (case update t s of
        Inl e \<Rightarrow> Inl e
      | Inr (s', out) \<Rightarrow>
          (case poll_all ts s' of
             Inl e \<Rightarrow> Inl e
           | Inr (s'', out') \<Rightarrow> Inr (s'', out @ out')))"

subsection \<open>Vocabulary of the statements\<close>

text \<open>The end marker as \<open>update\<close> tests it: frequency and duration both zero.\<close>

definition is_end :: "BuzzerNote \<Rightarrow> bool" where
  "is_end n = (frequency n = 0 \<and> duration n = 0)"

text \<open>What \<open>playCurrentNote\<close> sends for a note on a channel.\<close>

definition note_cmds :: "u8 \<Rightarrow> BuzzerNote \<Rightarrow> ledc list" where
  "note_cmds ch n =
     (if frequency n > 0 then [LedcWriteTone ch (ucast (frequency n)), LedcWrite ch (ucast (volume n))]
      else [LedcWrite ch 0])"

text \<open>What \<open>stop\<close> sends: tone frequency zero, then duty zero.\<close>

definition silence :: "u8 \<Rightarrow> ledc list" where
  "silence ch = [LedcWriteTone ch 0, LedcWrite ch 0]"

text \<open>
  The states the object can be in: the constructor's, and what \<open>playPattern\<close>,
  \<open>stop\<close> and \<open>update\<close> make of a state (the fields are private).
\<close>

inductive reachable :: "IndustrialBuzzer \<Rightarrow> bool" where
  constructed: "reachable (IndustrialBuzzer_new buzzerPin pwmChannel)"
| played: "reachable s \<Longrightarrow> playPattern pattern name repeatPattern now s = Inr (s', out)
     \<Longrightarrow> reachable s'"
| stopped: "reachable s \<Longrightarrow> reachable (fst (stop s))"
| updated: "reachable s \<Longrightarrow> update now s = Inr (s', out) \<Longrightarrow> reachable s'"

text \<open>
  \<open>drives t ns ts\<close>: the clock values \<open>ts\<close> of successive \<open>update\<close> calls take the
  sequencer through the notes \<open>ns\<close>, the first of which started at \<open>t\<close>. A call that
  comes before the current note's duration has elapsed is skipped over; a call that comes
  at or after it moves to the next note, which starts at that call's clock value; the
  last call of \<open>ts\<close> is the one that leaves the last note of \<open>ns\<close>.
\<close>

fun drives :: "u32 \<Rightarrow> BuzzerNote list \<Rightarrow> u32 list \<Rightarrow> bool" where
  "drives t [] ts = (ts = [])"
| "drives t (n # ns) [] = False"
| "drives t (n # ns) (t' # ts) =
     (if ucast (duration n) \<le> t' - t then drives t' ns ts else drives t (n # ns) ts)"

text \<open>
  \<open>drives_cycles t ns tss\<close>: each list of \<open>tss\<close> takes the sequencer once through
  \<open>ns\<close>, the first note of a cycle starting at \<open>t\<close> for the first cycle and at the
  last clock value of the cycle before for the others.
\<close>

fun drives_cycles :: "u32 \<Rightarrow> BuzzerNote list \<Rightarrow> u32 list list \<Rightarrow> bool" where
  "drives_cycles t ns [] = True"
| "drives_cycles t ns (ts # tss) = (drives t ns ts \<and> drives_cycles (last ts) ns tss)"

text \<open>Two of the pattern tables of the sketch.\<close>

definition PATTERN_WARNING :: "BuzzerNote list" where
  "PATTERN_WARNING =
     [\<lparr>frequency = 1500, duration = 200, volume = 192\<rparr>,
      \<lparr>frequency = 0, duration = 100, volume = 0\<rparr>,
      \<lparr>frequency = 1500, duration = 200, volume = 192\<rparr>,
      \<lparr>frequency = 0, duration = 0, volume = 0\<rparr>]"

definition PATTERN_ACK :: "BuzzerNote list" where
  "PATTERN_ACK =
     [\<lparr>frequency = 1500, duration = 50, volume = 64\<rparr>,
      \<lparr>frequency = 0, duration = 0, volume = 0\<rparr>]"

text \<open>The global instance: \<open>IndustrialBuzzer buzzer(BUZZER_PIN, BUZZER_CHANNEL)\<close>.\<close>

definition buzzer :: IndustrialBuzzer where
  "buzzer = IndustrialBuzzer_new 33 0"

text \<open>
  States of the global instance while it plays the menu entries \<open>2. Warning\<close> and
  \<open>6. Acknowledge\<close>: at note \<open>i\<close>, which started at \<open>t\<close>.
\<close>

definition warning_at :: "u8 \<Rightarrow> u32 \<Rightarrow> bool \<Rightarrow> IndustrialBuzzer" where
  "warning_at i t loop =
     \<lparr>pin = 33, channel = 0, currentPattern = Some PATTERN_WARNING, patternIndex = i,
      noteStartTime = t, isPlaying = True, repeat = loop, currentName = ''2. Warning''\<rparr>"

definition ack_at :: "u8 \<Rightarrow> u32 \<Rightarrow> bool \<Rightarrow> IndustrialBuzzer" where
  "ack_at i t loop =
     \<lparr>pin = 33, channel = 0, currentPattern = Some PATTERN_ACK, patternIndex = i,
      noteStartTime = t, isPlaying = True, repeat = loop, currentName = ''6. Acknowledge''\<rparr>"

text \<open>A state whose current note is a rest that carries a volume.\<close>

definition rest_with_volume :: IndustrialBuzzer where
  "rest_with_volume =
     \<lparr>pin = 33, channel = 0,
      currentPattern = Some [\<lparr>frequency = 0, duration = 100, volume = 77\<rparr>,
                             \<lparr>frequency = 0, duration = 0, volume = 0\<rparr>],
      patternIndex = 0, noteStartTime = 0, isPlaying = True, repeat = False, currentName = []\<rparr>"

text \<open>
  A pattern whose second entry has frequency and duration zero and a volume that is not
  zero, and the states of the global instance playing it.
\<close>

definition volume_marker :: "BuzzerNote list" where
  "volume_marker =
     [\<lparr>frequency = 800, duration = 100, volume = 128\<rparr>,
      \<lparr>frequency = 0, duration = 0, volume = 128\<rparr>,
      \<lparr>frequency = 1500, duration = 100, volume = 128\<rparr>,
      \<lparr>frequency = 0, duration = 0, volume = 0\<rparr>]"

definition marker_at :: "u8 \<Rightarrow> u32 \<Rightarrow> bool \<Rightarrow> IndustrialBuzzer" where
  "marker_at i t loop =
     \<lparr>pin = 33, channel = 0, currentPattern = Some volume_marker, patternIndex = i,
      noteStartTime = t, isPlaying = True, repeat = loop, currentName = ''marker''\<rparr>"

text \<open>
  The invariant of playing a pattern \<open>p\<close> that has its end marker at position
  \<open>k\<close>: the index never passes \<open>k\<close>, and is before \<open>k\<close> while playing.
\<close>

definition in_pattern :: "BuzzerNote list \<Rightarrow> nat \<Rightarrow> IndustrialBuzzer \<Rightarrow> bool" where
  "in_pattern p k s \<longleftrightarrow>
     currentPattern s = Some p \<and> unat (patternIndex s) \<le> k
     \<and> (isPlaying s \<longrightarrow> unat (patternIndex s) < k)"

text \<open>
  The pattern of the specification's scenario (500 Hz for 100 ms, a rest of 50 ms, 900 Hz
  for 150 ms, end marker), the states of the global instance playing it, and a pattern
  whose step 0 has duration zero.
\<close>

definition SCENARIO :: "BuzzerNote list" where
  "SCENARIO =
     [\<lparr>frequency = 500, duration = 100, volume = 128\<rparr>,
      \<lparr>frequency = 0, duration = 50, volume = 0\<rparr>,
      \<lparr>frequency = 900, duration = 150, volume = 128\<rparr>,
      \<lparr>frequency = 0, duration = 0, volume = 0\<rparr>]"

definition scenario_at :: "u8 \<Rightarrow> u32 \<Rightarrow> bool \<Rightarrow> IndustrialBuzzer" where
  "scenario_at i t loop =
     \<lparr>pin = 33, channel = 0, currentPattern = Some SCENARIO, patternIndex = i,
      noteStartTime = t, isPlaying = True, repeat = loop, currentName = ''scenario''\<rparr>"

definition zero_first :: "BuzzerNote list" where
  "zero_first =
     [\<lparr>frequency = 800, duration = 0, volume = 128\<rparr>,
      \<lparr>frequency = 1500, duration = 100, volume = 128\<rparr>,
      \<lparr>frequency = 0, duration = 0, volume = 0\<rparr>]"

text \<open>The warning pattern without its end marker.\<close>

definition WARNING_UNTERMINATED :: "BuzzerNote list" where
  "WARNING_UNTERMINATED =
     [\<lparr>frequency = 1500, duration = 200, volume = 192\<rparr>,
      \<lparr>frequency = 0, duration = 100, volume = 0\<rparr>,
      \<lparr>frequency = 1500, duration = 200, volume = 192\<rparr>]"

section \<open>Basic facts\<close>

lemma playCurrentNote_in_bounds:
  assumes "currentPattern s = Some p" and "unat (patternIndex s) < length p"
  shows "playCurrentNote s = Inr (note_cmds (channel s) (p ! unat (patternIndex s)))"
  using assms by (simp add: playCurrentNote_def note_at_def note_cmds_def)

lemma note_cmds_nonempty: "note_cmds ch n \<noteq> []"
  by (simp add: note_cmds_def)

lemma update_idle:
  assumes "\<not> isPlaying s \<or> currentPattern s = None"
  shows "update now s = Inr (s, [])"
  using assms by (auto simp add: update_def)

lemma update_wait:
  assumes "isPlaying s" and "currentPattern s = Some p"
    and "unat (patternIndex s) < length p"
    and "now - noteStartTime s < ucast (duration (p ! unat (patternIndex s)))"
  shows "update now s = Inr (s, [])"
  using assms by (simp add: update_def note_at_def not_le [symmetric])

lemma update_due:
  assumes "isPlaying s" and "currentPattern s = Some p"
    and "unat (patternIndex s) < length p"
    and "ucast (duration (p ! unat (patternIndex s))) \<le> now - noteStartTime s"
    and "unat (patternIndex s + 1) < length p"
  shows "update now s =
     (if is_end (p ! unat (patternIndex s + 1)) then
        if repeat s then
          Inr (s\<lparr>patternIndex := 0, noteStartTime := now\<rparr>, note_cmds (channel s) (p ! 0))
        else
          Inr (s\<lparr>patternIndex := patternIndex s + 1, isPlaying := False, repeat := False,
                 currentName := []\<rparr>, silence (channel s))
      else
        Inr (s\<lparr>patternIndex := patternIndex s + 1, noteStartTime := now\<rparr>,
             note_cmds (channel s) (p ! unat (patternIndex s + 1))))"
proof -
  from assms(5) have ne: "0 < length p" by (cases p) simp_all
  show ?thesis
    using assms ne
    by (simp add: update_def note_at_def Let_def is_end_def stop_def silence_def
        playCurrentNote_in_bounds)
qed

lemma update_due_fault:
  assumes "isPlaying s" and "currentPattern s = Some p"
    and "unat (patternIndex s) < length p"
    and "ucast (duration (p ! unat (patternIndex s))) \<le> now - noteStartTime s"
    and "\<not> unat (patternIndex s + 1) < length p"
  shows "update now s = Inl OutOfBounds"
  using assms by (simp add: update_def note_at_def Let_def)

lemma unat_succ_u8: "unat (i :: u8) < 255 \<Longrightarrow> unat (i + 1) = Suc (unat i)"
  by (simp add: unat_word_ariths)

lemma unat_succ_u8_wrap: "unat (i :: u8) = 255 \<Longrightarrow> unat (i + 1) = 0"
  by (simp add: unat_word_ariths)

lemma unat_u8_le: "unat (i :: u8) \<le> 255"
  using unsigned_less [of i, where ?'a = nat] by simp

lemma update_cases:
  assumes "update now s = Inr (s', out)"
  shows "(s' = s \<and> out = [])
       \<or> (\<not> isPlaying s' \<and> \<not> repeat s' \<and> currentName s' = [] \<and> out = silence (channel s))
       \<or> (isPlaying s' \<and> isPlaying s \<and> noteStartTime s' = now \<and>
           (\<exists>p. currentPattern s = Some p \<and> currentPattern s' = Some p
             \<and> unat (patternIndex s') < length p
             \<and> out = note_cmds (channel s) (p ! unat (patternIndex s'))))"
  using assms
  by (auto simp add: update_def Let_def stop_def silence_def playCurrentNote_def note_cmds_def
      note_at_def split: if_splits option.splits sum.splits)

lemma reachable_idle:
  assumes "reachable s" and "\<not> isPlaying s"
  shows "\<not> repeat s \<and> currentName s = []"
  using assms
proof (induction rule: reachable.induct)
  case (constructed buzzerPin pwmChannel)
  then show ?case by (simp add: IndustrialBuzzer_new_def)
next
  case (played s pattern name repeatPattern now s' out)
  then show ?case by (auto simp add: playPattern_def Let_def split: sum.splits)
next
  case (stopped s)
  then show ?case by (simp add: stop_def)
next
  case (updated s now s' out)
  from update_cases [OF updated.hyps(2)] updated.prems updated.IH
  show ?case by auto
qed

lemma update_due_emits:
  assumes "isPlaying s" and "currentPattern s = Some p"
    and "unat (patternIndex s) < length p"
    and "ucast (duration (p ! unat (patternIndex s))) \<le> now - noteStartTime s"
  shows "update now s \<noteq> Inr (s, [])"
proof (cases "unat (patternIndex s + 1) < length p")
  case True
  from update_due [OF assms True] show ?thesis
    by (auto simp add: note_cmds_nonempty silence_def split: if_splits)
next
  case False
  from update_due_fault [OF assms False] show ?thesis by simp
qed

lemma poll_all_single: "poll_all [now] s = update now s"
  by (simp split: sum.splits)

lemma poll_all_waiting:
  assumes "isPlaying s" and "currentPattern s = Some p"
    and "unat (patternIndex s) < length p"
    and "\<forall>t \<in> set ts. t - noteStartTime s < ucast (duration (p ! unat (patternIndex s)))"
  shows "poll_all (ts @ us) s = poll_all us s"
  using assms(4)
proof (induction ts)
  case Nil
  then show ?case by simp
next
  case (Cons t ts)
  then have "update t s = Inr (s, [])"
    using update_wait [OF assms(1-3), of t] by simp
  with Cons show ?case by (simp split: sum.splits)
qed

lemma unat_succ_u8_le: "unat (i :: u8) < k \<Longrightarrow> unat (i + 1) \<le> k"
proof (cases "unat i < 255")
  case True
  assume "unat i < k"
  with unat_succ_u8 [OF True] show ?thesis by simp
next
  case False
  with unat_u8_le [of i] have "unat i = 255" by simp
  then show ?thesis by (simp add: unat_succ_u8_wrap)
qed

lemma update_keeps_in_pattern:
  assumes p: "p = ns @ e # rest" and e: "is_end e" and ne: "ns \<noteq> []"
    and inv: "in_pattern p (length ns) s"
  shows "\<exists>s' out. update now s = Inr (s', out) \<and> in_pattern p (length ns) s'
           \<and> (isPlaying s \<and> repeat s \<longrightarrow> isPlaying s' \<and> repeat s')"
proof (cases "isPlaying s")
  case False
  then have "update now s = Inr (s, [])" by (simp add: update_idle)
  with inv False show ?thesis by simp
next
  case True
  from inv have cp: "currentPattern s = Some p" by (simp add: in_pattern_def)
  from inv True have i: "unat (patternIndex s) < length ns" by (simp add: in_pattern_def)
  with p have ib: "unat (patternIndex s) < length p" by simp
  show ?thesis
  proof (cases "ucast (duration (p ! unat (patternIndex s))) \<le> now - noteStartTime s")
    case False
    then have "update now s = Inr (s, [])"
      using update_wait [OF True cp ib, of now] by (simp add: not_le)
    with inv show ?thesis by simp
  next
    case due: True
    from unat_succ_u8_le [OF i] have j: "unat (patternIndex s + 1) \<le> length ns" .
    with p have jb: "unat (patternIndex s + 1) < length p" by simp
    have k: "0 < length ns" using ne by simp
    have endk: "\<not> is_end (p ! unat (patternIndex s + 1)) \<Longrightarrow> unat (patternIndex s + 1) < length ns"
    proof -
      assume a: "\<not> is_end (p ! unat (patternIndex s + 1))"
      have "p ! length ns = e" using p by simp
      with a e have "unat (patternIndex s + 1) \<noteq> length ns" by auto
      with j show ?thesis by simp
    qed
    from update_due [OF True cp ib due jb] j k endk cp show ?thesis
      by (auto simp add: in_pattern_def)
  qed
qed

lemma poll_all_keeps_in_pattern:
  assumes p: "p = ns @ e # rest" and e: "is_end e" and ne: "ns \<noteq> []"
    and inv: "in_pattern p (length ns) s"
  shows "\<exists>s' out. poll_all ts s = Inr (s', out) \<and> in_pattern p (length ns) s'
           \<and> (isPlaying s \<and> repeat s \<longrightarrow> isPlaying s' \<and> repeat s')"
  using inv
proof (induction ts arbitrary: s)
  case Nil
  then show ?case by simp
next
  case (Cons t ts)
  from update_keeps_in_pattern [OF p e ne Cons.prems, of t]
  obtain s1 out1 where u: "update t s = Inr (s1, out1)" and i1: "in_pattern p (length ns) s1"
    and r1: "isPlaying s \<and> repeat s \<longrightarrow> isPlaying s1 \<and> repeat s1" by blast
  from Cons.IH [OF i1]
  obtain s2 out2 where u2: "poll_all ts s1 = Inr (s2, out2)" and i2: "in_pattern p (length ns) s2"
    and r2: "isPlaying s1 \<and> repeat s1 \<longrightarrow> isPlaying s2 \<and> repeat s2" by blast
  from u u2 i2 r1 r2 show ?case by auto
qed

lemma playPattern_in_pattern:
  assumes p: "p = ns @ e # rest" and ne: "ns \<noteq> []"
  shows "playPattern p name loop t0 s =
           Inr (s\<lparr>currentPattern := Some p, currentName := name, patternIndex := 0,
                  isPlaying := True, repeat := loop, noteStartTime := t0\<rparr>,
                note_cmds (channel s) (hd ns))"
proof -
  have "p ! 0 = hd ns" using p ne by (cases ns) simp_all
  moreover have "p \<noteq> []" using p by simp
  ultimately show ?thesis
    by (simp add: playPattern_def Let_def playCurrentNote_in_bounds)
qed

lemma drives_nonempty: "drives t (n # ns) ts \<Longrightarrow> ts \<noteq> []"
  by (cases ts) simp_all

lemma poll_all_append:
  "poll_all (ts @ us) s =
     (case poll_all ts s of
        Inl e \<Rightarrow> Inl e
      | Inr (s', out) \<Rightarrow>
          (case poll_all us s' of
             Inl e \<Rightarrow> Inl e
           | Inr (s'', out') \<Rightarrow> Inr (s'', out @ out')))"
  by (induction ts arbitrary: s) (auto split: sum.splits)

lemma poll_all_idle:
  assumes "\<not> isPlaying s"
  shows "poll_all ts s = Inr (s, [])"
  using assms by (induction ts) (simp_all add: update_idle)

lemma run_through:
  assumes p: "p = ns @ e # rest" and e: "is_end e"
    and mid: "\<forall>n \<in> set (tl ns). \<not> is_end n" and len: "length ns \<le> 255"
    and play: "isPlaying s" and cp: "currentPattern s = Some p"
    and i: "unat (patternIndex s) < length ns"
    and d: "drives (noteStartTime s) (drop (unat (patternIndex s)) ns) ts"
  shows "\<exists>s'. poll_all ts s =
            Inr (s', concat (map (note_cmds (channel s)) (drop (Suc (unat (patternIndex s))) ns))
                     @ (if repeat s then note_cmds (channel s) (ns ! 0) else silence (channel s)))
          \<and> (if repeat s then s' = s\<lparr>patternIndex := 0, noteStartTime := last ts\<rparr>
              else \<not> isPlaying s')"
  using play cp i d
proof (induction ts arbitrary: s)
  case Nil
  from Nil.prems(3) have "drop (unat (patternIndex s)) ns
      = ns ! unat (patternIndex s) # drop (Suc (unat (patternIndex s))) ns"
    by (simp add: Cons_nth_drop_Suc)
  with Nil.prems(4) show ?case by simp
next
  case (Cons t ts)
  let ?i = "unat (patternIndex s)"
  have dr: "drop ?i ns = ns ! ?i # drop (Suc ?i) ns"
    using Cons.prems(3) by (simp add: Cons_nth_drop_Suc)
  have ib: "?i < length p" using Cons.prems(3) p by simp
  have pi: "p ! ?i = ns ! ?i" using Cons.prems(3) p by (simp add: nth_append)
  show ?case
  proof (cases "ucast (duration (ns ! ?i)) \<le> t - noteStartTime s")
    case False
    then have w: "update t s = Inr (s, [])"
      using update_wait [OF Cons.prems(1,2) ib, of t] pi by (simp add: not_le)
    from False Cons.prems(4) dr have d': "drives (noteStartTime s) (drop ?i ns) ts" by simp
    then have ne: "ts \<noteq> []" using dr drives_nonempty by metis
    from Cons.IH [OF Cons.prems(1,2,3) d'] w ne show ?thesis by auto
  next
    case True
    then have due: "ucast (duration (p ! ?i)) \<le> t - noteStartTime s" using pi by simp
    have "?i < 255" using Cons.prems(3) len by simp
    then have j: "unat (patternIndex s + 1) = Suc ?i" by (rule unat_succ_u8)
    have jb: "unat (patternIndex s + 1) < length p" using j Cons.prems(3) p by simp
    from True Cons.prems(4) dr have d': "drives t (drop (Suc ?i) ns) ts" by simp
    show ?thesis
    proof (cases "Suc ?i = length ns")
      case last: True
      then have "p ! unat (patternIndex s + 1) = e" using j p by simp
      moreover have "ts = []" using d' last by simp
      moreover have "p ! 0 = ns ! 0" using Cons.prems(3) p by (cases ns) simp_all
      ultimately show ?thesis
        using update_due [OF Cons.prems(1,2) ib due jb] e last by simp
    next
      case False
      with Cons.prems(3) have lt: "Suc ?i < length ns" by simp
      then have pj: "p ! unat (patternIndex s + 1) = ns ! Suc ?i" using j p by (simp add: nth_append)
      have "ns ! Suc ?i = tl ns ! ?i" using lt by (simp add: nth_tl)
      moreover have "?i < length (tl ns)" using lt by simp
      ultimately have "ns ! Suc ?i \<in> set (tl ns)" by (metis nth_mem)
      with mid pj have nend: "\<not> is_end (p ! unat (patternIndex s + 1))" by simp
      let ?s1 = "s\<lparr>patternIndex := patternIndex s + 1, noteStartTime := t\<rparr>"
      have u: "update t s = Inr (?s1, note_cmds (channel s) (ns ! Suc ?i))"
        using update_due [OF Cons.prems(1,2) ib due jb] nend pj by simp
      have dr1: "drop (Suc ?i) ns = ns ! Suc ?i # drop (Suc (Suc ?i)) ns"
        using lt by (simp add: Cons_nth_drop_Suc)
      have ne: "ts \<noteq> []" using d' dr1 drives_nonempty by metis
      have 1: "isPlaying ?s1" using Cons.prems(1) by simp
      have 2: "currentPattern ?s1 = Some p" using Cons.prems(2) by simp
      have 3: "unat (patternIndex ?s1) < length ns" using j lt by simp
      have 4: "drives (noteStartTime ?s1) (drop (unat (patternIndex ?s1)) ns) ts"
        using d' j by simp
      from Cons.IH [OF 1 2 3 4] obtain s' where
        r: "poll_all ts ?s1 =
            Inr (s', concat (map (note_cmds (channel s)) (drop (Suc (Suc ?i)) ns))
                     @ (if repeat s then note_cmds (channel s) (ns ! 0) else silence (channel s)))"
        and f: "if repeat s then s' = ?s1\<lparr>patternIndex := 0, noteStartTime := last ts\<rparr>
              else \<not> isPlaying s'"
        using j by auto
      from u r f ne dr1 show ?thesis by (auto split: if_splits)
    qed
  qed
qed

lemma run_cycles:
  assumes p: "p = ns @ e # rest" and e: "is_end e" and ne: "ns \<noteq> []"
    and mid: "\<forall>n \<in> set (tl ns). \<not> is_end n" and len: "length ns \<le> 255"
    and play: "isPlaying s" and rep: "repeat s" and cp: "currentPattern s = Some p"
    and i: "patternIndex s = 0"
    and d: "drives_cycles (noteStartTime s) ns tss"
  shows "\<exists>s'. poll_all (concat tss) s =
            Inr (s', concat (replicate (length tss)
                       (concat (map (note_cmds (channel s)) (tl ns)) @ note_cmds (channel s) (hd ns))))
          \<and> isPlaying s' \<and> repeat s' \<and> currentPattern s' = Some p \<and> patternIndex s' = 0
          \<and> noteStartTime s' = (if tss = [] then noteStartTime s else last (last tss))"
  using play rep cp i d
proof (induction tss arbitrary: s)
  case Nil
  then show ?case by simp
next
  case (Cons ts tss)
  let ?cyc = "concat (map (note_cmds (channel s)) (tl ns)) @ note_cmds (channel s) (hd ns)"
  let ?s1 = "s\<lparr>patternIndex := 0, noteStartTime := last ts\<rparr>"
  have i0: "unat (patternIndex s) < length ns" using Cons.prems(4) ne by simp
  have d0: "drives (noteStartTime s) (drop (unat (patternIndex s)) ns) ts"
    using Cons.prems(4,5) by simp
  have hd0: "ns ! 0 = hd ns" using ne by (simp add: hd_conv_nth)
  from run_through [OF p e mid len Cons.prems(1) Cons.prems(3) i0 d0] Cons.prems(2,4)
  have r1: "poll_all ts s = Inr (?s1, ?cyc)"
    by (simp add: drop_Suc hd0)
  have d1: "drives_cycles (noteStartTime ?s1) ns tss" using Cons.prems(5) by simp
  from Cons.IH [of ?s1] Cons.prems(1,2,3) d1
  obtain s' where r2: "poll_all (concat tss) ?s1 = Inr (s', concat (replicate (length tss) ?cyc))"
    and f: "isPlaying s' \<and> repeat s' \<and> currentPattern s' = Some p \<and> patternIndex s' = 0"
    and g: "noteStartTime s' = (if tss = [] then last ts else last (last tss))"
    by auto
  from r1 r2 f g show ?case by (simp add: poll_all_append)
qed

lemma run_off_end:
  assumes mid: "\<forall>n \<in> set (tl q). \<not> is_end n" and len: "length q \<le> 255"
    and play: "isPlaying s" and cp: "currentPattern s = Some q"
    and i: "unat (patternIndex s) < length q"
    and d: "drives (noteStartTime s) (drop (unat (patternIndex s)) q) ts"
  shows "\<exists>s1 out1. poll_all (butlast ts) s = Inr (s1, out1)
           \<and> update (last ts) s1 = Inl OutOfBounds"
  using play cp i d
proof (induction ts arbitrary: s)
  case Nil
  from Nil.prems(3) have "drop (unat (patternIndex s)) q
      = q ! unat (patternIndex s) # drop (Suc (unat (patternIndex s))) q"
    by (simp add: Cons_nth_drop_Suc)
  with Nil.prems(4) show ?case by simp
next
  case (Cons t ts)
  let ?i = "unat (patternIndex s)"
  have dr: "drop ?i q = q ! ?i # drop (Suc ?i) q"
    using Cons.prems(3) by (simp add: Cons_nth_drop_Suc)
  show ?case
  proof (cases "ucast (duration (q ! ?i)) \<le> t - noteStartTime s")
    case False
    then have w: "update t s = Inr (s, [])"
      using update_wait [OF Cons.prems(1,2,3), of t] by (simp add: not_le)
    from False Cons.prems(4) dr have d': "drives (noteStartTime s) (drop ?i q) ts" by simp
    then have ne: "ts \<noteq> []" using dr drives_nonempty by metis
    from Cons.IH [OF Cons.prems(1,2,3) d'] w ne show ?thesis by auto
  next
    case due: True
    have "?i < 255" using Cons.prems(3) len by simp
    then have j: "unat (patternIndex s + 1) = Suc ?i" by (rule unat_succ_u8)
    from due Cons.prems(4) dr have d': "drives t (drop (Suc ?i) q) ts" by simp
    show ?thesis
    proof (cases "Suc ?i = length q")
      case True
      then have "ts = []" using d' by simp
      moreover have "\<not> unat (patternIndex s + 1) < length q" using j True by simp
      ultimately show ?thesis
        using update_due_fault [OF Cons.prems(1,2,3) due] by simp
    next
      case False
      with Cons.prems(3) have lt: "Suc ?i < length q" by simp
      then have jb: "unat (patternIndex s + 1) < length q" using j by simp
      have "q ! Suc ?i = tl q ! ?i" using lt by (simp add: nth_tl)
      moreover have "?i < length (tl q)" using lt by simp
      ultimately have "q ! Suc ?i \<in> set (tl q)" by (metis nth_mem)
      with mid j have nend: "\<not> is_end (q ! unat (patternIndex s + 1))" by simp
      let ?s1 = "s\<lparr>patternIndex := patternIndex s + 1, noteStartTime := t\<rparr>"
      have u: "update t s = Inr (?s1, note_cmds (channel s) (q ! Suc ?i))"
        using update_due [OF Cons.prems(1,2,3) due jb] nend j by simp
      have dr1: "drop (Suc ?i) q = q ! Suc ?i # drop (Suc (Suc ?i)) q"
        using lt by (simp add: Cons_nth_drop_Suc)
      have ne: "ts \<noteq> []" using d' dr1 drives_nonempty by metis
      have 1: "isPlaying ?s1" using Cons.prems(1) by simp
      have 2: "currentPattern ?s1 = Some q" using Cons.prems(2) by simp
      have 3: "unat (patternIndex ?s1) < length q" using j lt by simp
      have 4: "drives (noteStartTime ?s1) (drop (unat (patternIndex ?s1)) q) ts"
        using d' j by simp
      from Cons.IH [OF 1 2 3 4] u ne show ?thesis by auto
    qed
  qed
qed

lemma poll_all_last_fault:
  assumes "ts \<noteq> []" and "poll_all (butlast ts) s = Inr (s1, out1)"
    and "update (last ts) s1 = Inl e"
  shows "poll_all ts s = Inl e"
proof -
  have "poll_all (butlast ts @ [last ts]) s = Inl e"
    using assms(2,3) by (simp add: poll_all_append)
  with assms(1) show ?thesis by simp
qed

lemma playPattern_nonempty:
  assumes "q \<noteq> []"
  shows "playPattern q name loop t0 s =
           Inr (s\<lparr>currentPattern := Some q, currentName := name, patternIndex := 0,
                  isPlaying := True, repeat := loop, noteStartTime := t0\<rparr>,
                note_cmds (channel s) (q ! 0))"
  using assms by (simp add: playPattern_def Let_def playCurrentNote_in_bounds)

section \<open>The claims\<close>

text \<open>
  C7. \<open>stop\<close> leaves the sequencer idle (\<open>isActive\<close> is false) with the repeat flag
  cleared, and sends the silence commands (tone frequency zero, then duty zero) to the
  sink. A second \<open>stop\<close> gives the same state and sends the same commands as the first.
  On an idle state of the object, \<open>stop\<close> changes no field and only sends the silence
  commands again.
\<close>

theorem stop_idle_idempotent:
  "\<not> isActive (fst (stop s)) \<and> \<not> repeat (fst (stop s))
   \<and> snd (stop s) = [LedcWriteTone (channel s) 0, LedcWrite (channel s) 0]
   \<and> fst (stop (fst (stop s))) = fst (stop s)
   \<and> snd (stop (fst (stop s))) = snd (stop s)
   \<and> (reachable s \<and> \<not> isActive s \<longrightarrow> fst (stop s) = s)"
proof -
  have "reachable s \<and> \<not> isActive s \<longrightarrow> fst (stop s) = s"
    using reachable_idle [of s] by (simp add: stop_def isActive_def)
  then show ?thesis by (simp add: stop_def isActive_def)
qed

theorem stop_idle_idempotent_witness:
  "fst (stop buzzer) = buzzer \<and> snd (stop buzzer) = [LedcWriteTone 0 0, LedcWrite 0 0]
   \<and> stop (fst (stop buzzer)) = (buzzer, [LedcWriteTone 0 0, LedcWrite 0 0])"
proof -
  have r: "reachable buzzer" unfolding buzzer_def by (rule reachable.constructed)
  have i: "\<not> isActive buzzer" by (simp add: buzzer_def IndustrialBuzzer_new_def isActive_def)
  have c: "channel buzzer = 0" by (simp add: buzzer_def IndustrialBuzzer_new_def)
  from stop_idle_idempotent [of buzzer] r i c show ?thesis
    by (metis prod.collapse)
qed

text \<open>
  C10. Whenever the current step is sent to the sink (by \<open>playCurrentNote\<close>, called
  from \<open>playPattern\<close> and from an \<open>update\<close> that moves to a step): for a step of
  frequency zero the sink receives the single command duty zero, whatever the step's
  volume, and no tone command; for a step of positive frequency it receives the tone
  command with that frequency and then the duty command with the step's volume.
\<close>

theorem step_emission_rest_or_tone:
  "let expected = (if frequency n = 0 then [LedcWrite ch 0]
                   else [LedcWriteTone ch (ucast (frequency n)), LedcWrite ch (ucast (volume n))])
   in (currentPattern s = Some p \<and> unat (patternIndex s) < length p
         \<and> p ! unat (patternIndex s) = n \<and> channel s = ch
        \<longrightarrow> playCurrentNote s = Inr expected)
    \<and> (playPattern p name loop now s = Inr (s', out) \<and> p ! 0 = n \<and> channel s = ch
        \<longrightarrow> out = expected)
    \<and> (update now s = Inr (s', out) \<and> isPlaying s' \<and> out \<noteq> [] \<and> currentPattern s = Some p
         \<and> p ! unat (patternIndex s') = n \<and> channel s = ch
        \<longrightarrow> out = expected)"
proof -
  have a: "currentPattern s = Some p \<and> unat (patternIndex s) < length p
         \<and> p ! unat (patternIndex s) = n \<and> channel s = ch
        \<longrightarrow> playCurrentNote s = Inr (note_cmds ch n)" for s
    by (auto simp add: playCurrentNote_in_bounds)
  have b: "playPattern p name loop now s = Inr (s', out) \<and> p ! 0 = n \<and> channel s = ch
        \<longrightarrow> out = note_cmds ch n"
    by (auto simp add: playPattern_def Let_def playCurrentNote_def note_at_def note_cmds_def
        split: sum.splits if_splits)
  have c: "update now s = Inr (s', out) \<and> isPlaying s' \<and> out \<noteq> [] \<and> currentPattern s = Some p
         \<and> p ! unat (patternIndex s') = n \<and> channel s = ch
        \<longrightarrow> out = note_cmds ch n"
    using update_cases [of now s s' out] by auto
  have e: "note_cmds ch n = (if frequency n = 0 then [LedcWrite ch 0]
                   else [LedcWriteTone ch (ucast (frequency n)), LedcWrite ch (ucast (volume n))])"
    by (simp add: note_cmds_def word_greater_zero_iff)
  from a [of s] b c show ?thesis unfolding Let_def e [symmetric] by blast
qed

theorem step_emission_rest_or_tone_witness:
  "playCurrentNote rest_with_volume = Inr [LedcWrite 0 0]"
  using step_emission_rest_or_tone
    [of "\<lparr>frequency = 0, duration = 100, volume = 77\<rparr>" 0 rest_with_volume
        "[\<lparr>frequency = 0, duration = 100, volume = 77\<rparr>, \<lparr>frequency = 0, duration = 0, volume = 0\<rparr>]"]
  by (simp add: rest_with_volume_def Let_def)

text \<open>
  C6. On any state, idle or playing, \<open>playPattern\<close> with a pattern of at least one
  step stores the pattern, index 0, the current clock value, the loop flag (and the name),
  marks the sequencer as playing, and sends step 0 to the sink within the call. Nothing of
  the state before remains except the pin and the channel: after any earlier
  \<open>playPattern\<close>, the call gives the same state and the same commands as without it.
\<close>

theorem playPattern_start_preempts:
  assumes "pattern \<noteq> []"
  shows "playPattern pattern name loop now s =
           Inr (\<lparr>pin = pin s, channel = channel s, currentPattern = Some pattern,
                 patternIndex = 0, noteStartTime = now, isPlaying = True, repeat = loop,
                 currentName = name\<rparr>,
                note_cmds (channel s) (pattern ! 0))
         \<and> note_cmds (channel s) (pattern ! 0) \<noteq> []
         \<and> (\<forall>A nameA loopA t sA outA.
               playPattern A nameA loopA t s = Inr (sA, outA)
               \<longrightarrow> playPattern pattern name loop now sA = playPattern pattern name loop now s)"
proof -
  have p: "playPattern q nm l t x =
           Inr (\<lparr>pin = pin x, channel = channel x, currentPattern = Some q,
                 patternIndex = 0, noteStartTime = t, isPlaying = True, repeat = l,
                 currentName = nm\<rparr>,
                note_cmds (channel x) (q ! 0))" if "q \<noteq> []" for q nm l t x
    using that by (simp add: playPattern_def Let_def playCurrentNote_in_bounds)
  have q: "pin sA = pin s \<and> channel sA = channel s"
    if "playPattern A nameA loopA t s = Inr (sA, outA)" for A nameA loopA t sA outA
    using that by (auto simp add: playPattern_def Let_def split: sum.splits)
  show ?thesis using p [OF assms] q by (auto simp add: note_cmds_nonempty)
qed

theorem playPattern_start_preempts_witness:
  "playPattern PATTERN_ACK ''6. Acknowledge'' False 7 (warning_at 1 200 True)
     = Inr (ack_at 0 7 False, [LedcWriteTone 0 1500, LedcWrite 0 64])"
proof -
  have ne: "PATTERN_ACK \<noteq> []" by (simp add: PATTERN_ACK_def)
  from playPattern_start_preempts [OF ne, of "''6. Acknowledge''" False 7 "warning_at 1 200 True"]
  show ?thesis
    by (simp add: warning_at_def ack_at_def note_cmds_def PATTERN_ACK_def)
qed

text \<open>
  C9, as the code has it. While the sequencer is idle (\<open>isPlaying\<close> false, or no
  pattern stored), \<open>update\<close> returns at once, changes no field and sends nothing.
  \<open>stop\<close> changes the flags \<open>isPlaying\<close> and \<open>repeat\<close> and also clears the
  display name \<open>currentName\<close>; the stored pattern, the step index and the step start
  time are left as they were, and \<open>isActive\<close> reads the \<open>isPlaying\<close> flag alone.
  The claim that \<open>stop\<close> changes the two flags only fails on a state with a name.
\<close>

theorem idle_frame:
  "(\<not> isPlaying s \<or> currentPattern s = None \<longrightarrow> update now s = Inr (s, []))
   \<and> fst (stop s) = s\<lparr>isPlaying := False, repeat := False, currentName := []\<rparr>
   \<and> currentPattern (fst (stop s)) = currentPattern s
   \<and> patternIndex (fst (stop s)) = patternIndex s
   \<and> noteStartTime (fst (stop s)) = noteStartTime s
   \<and> isActive s = isPlaying s"
  by (simp add: update_idle stop_def isActive_def)

theorem idle_frame_witness:
  "update 5000 buzzer = Inr (buzzer, [])
   \<and> update 5000 (fst (stop (warning_at 1 200 False))) = Inr (fst (stop (warning_at 1 200 False)), [])
   \<and> fst (stop (warning_at 1 200 False)) =
       \<lparr>pin = 33, channel = 0, currentPattern = Some PATTERN_WARNING, patternIndex = 1,
        noteStartTime = 200, isPlaying = False, repeat = False, currentName = []\<rparr>"
  using idle_frame [of buzzer 5000] idle_frame [of "fst (stop (warning_at 1 200 False))" 5000]
    idle_frame [of "warning_at 1 200 False" 5000]
  by (simp add: buzzer_def IndustrialBuzzer_new_def warning_at_def stop_def)

theorem stop_clears_name_counterexample:
  "fst (stop (warning_at 1 200 False)) \<noteq> (warning_at 1 200 False)\<lparr>isPlaying := False, repeat := False\<rparr>
   \<and> currentName (warning_at 1 200 False) = ''2. Warning''
   \<and> currentName (fst (stop (warning_at 1 200 False))) = []"
  by (simp add: stop_def warning_at_def)

text \<open>
  C8, as the code has it. The end marker is tested on the step that \<open>update\<close> moves
  to, and the test reads the frequency and the duration only: a step with both zero ends
  the pattern (restart at step 0 when looping, \<open>stop\<close> otherwise) whatever its volume,
  and any other step is played as an ordinary step. The claim that a step with a volume
  that is not zero is played fails on the pattern \<open>volume_marker\<close>.
\<close>

theorem terminator_is_frequency_and_duration:
  assumes "isPlaying s" and "currentPattern s = Some p"
    and "unat (patternIndex s) < length p"
    and "ucast (duration (p ! unat (patternIndex s))) \<le> now - noteStartTime s"
    and "unat (patternIndex s + 1) < length p"
    and "n = p ! unat (patternIndex s + 1)"
  shows "(frequency n = 0 \<and> duration n = 0 \<longrightarrow>
            update now s =
              (if repeat s then
                 Inr (s\<lparr>patternIndex := 0, noteStartTime := now\<rparr>, note_cmds (channel s) (p ! 0))
               else
                 Inr (s\<lparr>patternIndex := patternIndex s + 1, isPlaying := False, repeat := False,
                        currentName := []\<rparr>,
                      [LedcWriteTone (channel s) 0, LedcWrite (channel s) 0])))
       \<and> (\<not> (frequency n = 0 \<and> duration n = 0) \<longrightarrow>
            update now s =
              Inr (s\<lparr>patternIndex := patternIndex s + 1, noteStartTime := now\<rparr>,
                   note_cmds (channel s) n))"
  using update_due [OF assms(1-5)] assms(6) by (simp add: is_end_def silence_def)

theorem terminator_is_frequency_and_duration_witness:
  "update 100 (marker_at 0 0 True) =
     Inr (marker_at 0 100 True, [LedcWriteTone 0 800, LedcWrite 0 128])
   \<and> update 350 (warning_at 1 200 False) =
     Inr (warning_at 2 350 False, [LedcWriteTone 0 1500, LedcWrite 0 192])"
proof -
  have m1: "isPlaying (marker_at 0 0 True)"
    and m2: "currentPattern (marker_at 0 0 True) = Some volume_marker"
    and m3: "unat (patternIndex (marker_at 0 0 True)) < length volume_marker"
    and m4: "ucast (duration (volume_marker ! unat (patternIndex (marker_at 0 0 True))))
               \<le> (100 :: u32) - noteStartTime (marker_at 0 0 True)"
    and m5: "unat (patternIndex (marker_at 0 0 True) + 1) < length volume_marker"
    and m6: "\<lparr>frequency = 0, duration = 0, volume = 128\<rparr>
               = volume_marker ! unat (patternIndex (marker_at 0 0 True) + 1)"
    by (simp_all add: marker_at_def volume_marker_def)
  have w1: "isPlaying (warning_at 1 200 False)"
    and w2: "currentPattern (warning_at 1 200 False) = Some PATTERN_WARNING"
    and w3: "unat (patternIndex (warning_at 1 200 False)) < length PATTERN_WARNING"
    and w4: "ucast (duration (PATTERN_WARNING ! unat (patternIndex (warning_at 1 200 False))))
               \<le> (350 :: u32) - noteStartTime (warning_at 1 200 False)"
    and w5: "unat (patternIndex (warning_at 1 200 False) + 1) < length PATTERN_WARNING"
    and w6: "\<lparr>frequency = 1500, duration = 200, volume = 192\<rparr>
               = PATTERN_WARNING ! unat (patternIndex (warning_at 1 200 False) + 1)"
    by (simp_all add: warning_at_def PATTERN_WARNING_def)
  have a: "update 100 (marker_at 0 0 True) =
     Inr (marker_at 0 100 True, [LedcWriteTone 0 800, LedcWrite 0 128])"
    using terminator_is_frequency_and_duration [OF m1 m2 m3 m4 m5 m6]
    by (simp add: marker_at_def volume_marker_def note_cmds_def)
  have b: "update 350 (warning_at 1 200 False) =
     Inr (warning_at 2 350 False, [LedcWriteTone 0 1500, LedcWrite 0 192])"
    using terminator_is_frequency_and_duration [OF w1 w2 w3 w4 w5 w6]
    by (simp add: warning_at_def PATTERN_WARNING_def note_cmds_def)
  from a b show ?thesis by simp
qed

theorem terminator_ignores_volume_counterexample:
  "volume (volume_marker ! 1) = 128
   \<and> update 100 (marker_at 0 0 False) =
       Inr (\<lparr>pin = 33, channel = 0, currentPattern = Some volume_marker, patternIndex = 1,
             noteStartTime = 0, isPlaying = False, repeat = False, currentName = []\<rparr>,
            [LedcWriteTone 0 0, LedcWrite 0 0])"
  by (simp add: update_def note_at_def marker_at_def volume_marker_def stop_def Let_def)

text \<open>
  C2, as the code has it. There is no clamp: the elapsed time is the 32-bit unsigned
  difference \<open>now - noteStartTime\<close>, which for \<open>now < noteStartTime\<close> wraps around
  to \<open>2^32 - (noteStartTime - now)\<close>. The call leaves the state unchanged and sends
  nothing exactly when that wrapped value is below the current step's duration;
  otherwise the step advances. The claim that a smaller clock value never advances fails
  at start time 1000 and clock value 500.
\<close>

theorem stale_timestamp_wraps:
  assumes "isPlaying s" and "currentPattern s = Some p"
    and "unat (patternIndex s) < length p"
    and "now < noteStartTime s"
  shows "unat (now - noteStartTime s) = 2 ^ 32 - (unat (noteStartTime s) - unat now)
       \<and> (update now s = Inr (s, [])
            \<longleftrightarrow> now - noteStartTime s < ucast (duration (p ! unat (patternIndex s))))"
proof -
  have "unat (now - noteStartTime s) = 2 ^ 32 - (unat (noteStartTime s) - unat now)"
    using assms(4) unsigned_less [of now, where ?'a = nat]
      unsigned_less [of "noteStartTime s", where ?'a = nat]
    by (simp add: unat_sub_if' word_less_nat_alt)
  moreover have "update now s = Inr (s, [])
            \<longleftrightarrow> now - noteStartTime s < ucast (duration (p ! unat (patternIndex s)))"
  proof
    assume "update now s = Inr (s, [])"
    with update_due_emits [OF assms(1-3), of now]
    show "now - noteStartTime s < ucast (duration (p ! unat (patternIndex s)))"
      by (auto simp add: not_le [symmetric])
  next
    assume "now - noteStartTime s < ucast (duration (p ! unat (patternIndex s)))"
    then show "update now s = Inr (s, [])" by (rule update_wait [OF assms(1-3)])
  qed
  ultimately show ?thesis by simp
qed

theorem stale_timestamp_wraps_witness:
  "unat ((500 :: u32) - 1000) = 4294966796
   \<and> update 500 (warning_at 0 1000 False) \<noteq> Inr (warning_at 0 1000 False, [])
   \<and> update 100 (warning_at 0 4294967295 False) = Inr (warning_at 0 4294967295 False, [])"
  using stale_timestamp_wraps [of "warning_at 0 1000 False" PATTERN_WARNING 500]
    stale_timestamp_wraps [of "warning_at 0 4294967295 False" PATTERN_WARNING 100]
  by (simp add: warning_at_def PATTERN_WARNING_def)

theorem stale_timestamp_counterexample:
  "(500 :: u32) < noteStartTime (warning_at 0 1000 False)
   \<and> update 500 (warning_at 0 1000 False) = Inr (warning_at 1 500 False, [LedcWrite 0 0])"
  by (simp add: update_def note_at_def warning_at_def PATTERN_WARNING_def Let_def
      playCurrentNote_def)

text \<open>
  C1, as the code has it. One \<open>update\<close> call moves by at most one step (the index
  stays, goes up by one, or is reset to zero), however much time has elapsed. Calls that
  come before the current step's duration has elapsed change nothing and send nothing, so
  any number of them followed by one more call give the same state and the same commands
  as that one call alone. The claim that one late call equals several calls, each at a
  step boundary, fails on the warning pattern.
\<close>

theorem poll_invariance_within_step:
  assumes "isPlaying s" and "currentPattern s = Some p"
    and "unat (patternIndex s) < length p"
    and "\<forall>t \<in> set ts. t - noteStartTime s < ucast (duration (p ! unat (patternIndex s)))"
  shows "poll_all (ts @ [now]) s = update now s
       \<and> poll_all ts s = Inr (s, [])
       \<and> (\<forall>s' out. update now s = Inr (s', out) \<longrightarrow>
            patternIndex s' = patternIndex s \<or> patternIndex s' = patternIndex s + 1
            \<or> patternIndex s' = 0)"
proof -
  have a: "poll_all (ts @ [now]) s = update now s"
    using poll_all_waiting [OF assms, of "[now]"] by (simp only: poll_all_single)
  have b: "poll_all ts s = Inr (s, [])"
    using poll_all_waiting [OF assms, of "[]"] by simp
  have c: "\<forall>s' out. update now s = Inr (s', out) \<longrightarrow>
            patternIndex s' = patternIndex s \<or> patternIndex s' = patternIndex s + 1
            \<or> patternIndex s' = 0"
    by (auto simp add: update_def Let_def stop_def playCurrentNote_def
        split: if_splits option.splits sum.splits)
  from a b c show ?thesis by simp
qed

theorem poll_invariance_within_step_witness:
  "poll_all [50, 120, 199, 200] (warning_at 0 0 False) = Inr (warning_at 1 200 False, [LedcWrite 0 0])"
proof -
  have "update 200 (warning_at 0 0 False) = Inr (warning_at 1 200 False, [LedcWrite 0 0])"
    by (simp add: update_def note_at_def warning_at_def PATTERN_WARNING_def Let_def
      playCurrentNote_def)
  then show ?thesis
    using poll_invariance_within_step [of "warning_at 0 0 False" PATTERN_WARNING "[50, 120, 199]" 200]
    by (simp add: warning_at_def PATTERN_WARNING_def)
qed

theorem single_poll_one_step_counterexample:
  "poll_all [200, 300] (warning_at 0 0 False) =
     Inr (warning_at 2 300 False, [LedcWrite 0 0, LedcWriteTone 0 1500, LedcWrite 0 192])
   \<and> poll_all [300] (warning_at 0 0 False) = Inr (warning_at 1 300 False, [LedcWrite 0 0])"
  by (simp add: update_def note_at_def warning_at_def PATTERN_WARNING_def Let_def
      playCurrentNote_def)

text \<open>
  C3, as the code has it. \<open>update\<close> has no guard of its own: it relies on the end
  marker, and leaving the last entry of the array is not treated as an end marker. For a
  pattern with an end marker (frequency and duration zero) after at least one step,
  \<open>playPattern\<close> and any number of \<open>update\<close> calls after it read inside the array
  only, the index never passing the marker, so the fault branch of the model is not
  reached. For a non-empty array of at most 255 entries with no end marker after step 0,
  \<open>playPattern\<close> followed by calls that leave every step in turn (\<open>drives\<close>) stays
  inside the array up to the last of these calls, and that call, which leaves the last
  entry, reads past the end of the array.
\<close>

theorem terminated_pattern_in_bounds:
  "(p = ns @ e # rest \<and> frequency e = 0 \<and> duration e = 0 \<and> ns \<noteq> [] \<longrightarrow>
      (\<exists>s0 out0. playPattern p name loop t0 s = Inr (s0, out0)
           \<and> (\<forall>ts. \<exists>s' out. poll_all ts s0 = Inr (s', out)
                  \<and> unat (patternIndex s') \<le> length ns \<and> length ns < length p)))
   \<and> (q \<noteq> [] \<and> length q \<le> 255
        \<and> (\<forall>n \<in> set (tl q). \<not> (frequency n = 0 \<and> duration n = 0))
        \<and> drives t0 q us \<longrightarrow>
      (\<exists>s0 out0 s1 out1. playPattern q name loop t0 s = Inr (s0, out0)
           \<and> poll_all (butlast us) s0 = Inr (s1, out1)
           \<and> update (last us) s1 = Inl OutOfBounds
           \<and> poll_all us s0 = Inl OutOfBounds))"
proof -
  have a: "\<exists>s0 out0. playPattern p name loop t0 s = Inr (s0, out0)
           \<and> (\<forall>ts. \<exists>s' out. poll_all ts s0 = Inr (s', out)
                  \<and> unat (patternIndex s') \<le> length ns \<and> length ns < length p)"
    if h: "p = ns @ e # rest \<and> frequency e = 0 \<and> duration e = 0 \<and> ns \<noteq> []"
  proof -
    let ?s0 = "s\<lparr>currentPattern := Some p, currentName := name, patternIndex := 0,
                  isPlaying := True, repeat := loop, noteStartTime := t0\<rparr>"
    from h have p: "p = ns @ e # rest" and ne: "ns \<noteq> []" by simp_all
    have e: "is_end e" using h by (simp add: is_end_def)
    have inv: "in_pattern p (length ns) ?s0" using ne by (simp add: in_pattern_def)
    have "\<exists>s' out. poll_all ts ?s0 = Inr (s', out)
                  \<and> unat (patternIndex s') \<le> length ns \<and> length ns < length p" for ts
      using poll_all_keeps_in_pattern [OF p e ne inv, of ts] p
      by (auto simp add: in_pattern_def)
    with playPattern_in_pattern [OF p ne, of name loop t0 s] show ?thesis by blast
  qed
  have b: "\<exists>s0 out0 s1 out1. playPattern q name loop t0 s = Inr (s0, out0)
           \<and> poll_all (butlast us) s0 = Inr (s1, out1)
           \<and> update (last us) s1 = Inl OutOfBounds
           \<and> poll_all us s0 = Inl OutOfBounds"
    if h: "q \<noteq> [] \<and> length q \<le> 255
        \<and> (\<forall>n \<in> set (tl q). \<not> (frequency n = 0 \<and> duration n = 0))
        \<and> drives t0 q us"
  proof -
    let ?s0 = "s\<lparr>currentPattern := Some q, currentName := name, patternIndex := 0,
                  isPlaying := True, repeat := loop, noteStartTime := t0\<rparr>"
    from h have ne: "q \<noteq> []" and len: "length q \<le> 255" and d: "drives t0 q us" by simp_all
    have mid: "\<forall>n \<in> set (tl q). \<not> is_end n" using h by (simp add: is_end_def)
    have une: "us \<noteq> []" using d ne by (cases q) (auto dest: drives_nonempty)
    have 1: "isPlaying ?s0" and 2: "currentPattern ?s0 = Some q"
      and 3: "unat (patternIndex ?s0) < length q"
      and 4: "drives (noteStartTime ?s0) (drop (unat (patternIndex ?s0)) q) us"
      using ne d by simp_all
    from run_off_end [OF mid len 1 2 3 4]
    obtain s1 out1 where r: "poll_all (butlast us) ?s0 = Inr (s1, out1)"
      and f: "update (last us) s1 = Inl OutOfBounds" by blast
    from poll_all_last_fault [OF une r f] r f playPattern_nonempty [OF ne, of name loop t0 s]
    show ?thesis by blast
  qed
  from a b show ?thesis by blast
qed

theorem terminated_pattern_in_bounds_witness:
  "(\<exists>s' out. poll_all [200, 300, 499, 500, 777] (warning_at 0 0 False) = Inr (s', out)
      \<and> unat (patternIndex s') \<le> 3)
   \<and> poll_all [199, 200, 300, 500]
        \<lparr>pin = 33, channel = 0, currentPattern = Some WARNING_UNTERMINATED, patternIndex = 0,
         noteStartTime = 0, isPlaying = True, repeat = False, currentName = ''2. Warning''\<rparr>
       = Inl OutOfBounds"
proof -
  have p: "PATTERN_WARNING = take 3 PATTERN_WARNING @ \<lparr>frequency = 0, duration = 0, volume = 0\<rparr> # []"
    by (simp add: PATTERN_WARNING_def)
  have e: "frequency \<lparr>frequency = 0, duration = 0, volume = 0 :: u8\<rparr> = 0"
    and e': "duration \<lparr>frequency = 0, duration = 0, volume = 0 :: u8\<rparr> = 0" by simp_all
  have ne: "take 3 PATTERN_WARNING \<noteq> []" by (simp add: PATTERN_WARNING_def)
  have l: "length (take 3 PATTERN_WARNING) = 3" by (simp add: PATTERN_WARNING_def)
  have s: "playPattern PATTERN_WARNING ''2. Warning'' False 0 buzzer =
     Inr (warning_at 0 0 False, [LedcWriteTone 0 1500, LedcWrite 0 192])"
    by (simp add: playPattern_def playCurrentNote_def note_at_def PATTERN_WARNING_def buzzer_def
        IndustrialBuzzer_new_def warning_at_def)
  have qne: "WARNING_UNTERMINATED \<noteq> []" and qlen: "length WARNING_UNTERMINATED \<le> 255"
    and qmid: "\<forall>n \<in> set (tl WARNING_UNTERMINATED). \<not> (frequency n = 0 \<and> duration n = 0)"
    and qd: "drives 0 WARNING_UNTERMINATED [199, 200, 300, 500]"
    by (simp_all add: WARNING_UNTERMINATED_def)
  have qs: "playPattern WARNING_UNTERMINATED ''2. Warning'' False 0 buzzer =
     Inr (\<lparr>pin = 33, channel = 0, currentPattern = Some WARNING_UNTERMINATED, patternIndex = 0,
         noteStartTime = 0, isPlaying = True, repeat = False, currentName = ''2. Warning''\<rparr>,
          [LedcWriteTone 0 1500, LedcWrite 0 192])"
    by (simp add: playPattern_def playCurrentNote_def note_at_def WARNING_UNTERMINATED_def
        buzzer_def IndustrialBuzzer_new_def)
  note t = terminated_pattern_in_bounds
    [where p = PATTERN_WARNING and ns = "take 3 PATTERN_WARNING"
       and e = "\<lparr>frequency = 0, duration = 0, volume = 0\<rparr>" and rest = "[]"
       and q = WARNING_UNTERMINATED and name = "''2. Warning''" and loop = False and ?t0.0 = 0
       and s = buzzer and us = "[199, 200, 300, 500]"]
  from t p e e' ne
  have "\<forall>ts. \<exists>s' out. poll_all ts (warning_at 0 0 False) = Inr (s', out)
          \<and> unat (patternIndex s') \<le> 3 \<and> 3 < length PATTERN_WARNING"
    unfolding s l by simp
  then have a: "\<exists>s' out. poll_all [200, 300, 499, 500, 777] (warning_at 0 0 False) = Inr (s', out)
      \<and> unat (patternIndex s') \<le> 3" by blast
  from t qne qlen qmid qd
  have b: "poll_all [199, 200, 300, 500]
        \<lparr>pin = 33, channel = 0, currentPattern = Some WARNING_UNTERMINATED, patternIndex = 0,
         noteStartTime = 0, isPlaying = True, repeat = False, currentName = ''2. Warning''\<rparr>
       = Inl OutOfBounds"
    unfolding qs by blast
  from a b show ?thesis by blast
qed

theorem unterminated_pattern_counterexample:
  "playPattern [\<lparr>frequency = 800, duration = 100, volume = 128\<rparr>] ''x'' False 0 buzzer
     = Inr (\<lparr>pin = 33, channel = 0,
              currentPattern = Some [\<lparr>frequency = 800, duration = 100, volume = 128\<rparr>],
              patternIndex = 0, noteStartTime = 0, isPlaying = True, repeat = False,
              currentName = ''x''\<rparr>, [LedcWriteTone 0 800, LedcWrite 0 128])
   \<and> update 100 \<lparr>pin = 33, channel = 0,
              currentPattern = Some [\<lparr>frequency = 800, duration = 100, volume = 128\<rparr>],
              patternIndex = 0, noteStartTime = 0, isPlaying = True, repeat = False,
              currentName = ''x''\<rparr> = Inl OutOfBounds"
  by (simp add: playPattern_def playCurrentNote_def update_def note_at_def Let_def buzzer_def
      IndustrialBuzzer_new_def)

text \<open>
  C4, as the code has it. Take a pattern with at least one and at most 255 steps before
  its end marker, none of the steps after step 0 looking like the marker, started with
  looping disabled. Since one call moves by one step, elapsed time alone does not finish
  the pattern: it finishes once the \<open>update\<close> calls have left every step in turn
  (\<open>drives\<close>). Then the sink has received the steps after step 0 in order and last of
  all the silence commands, \<open>isActive\<close> is false, and any further calls leave the state
  and what the sink received as they are. The call that reaches the end marker is
  \<open>stop\<close> on the state with the index advanced, and nothing else.
\<close>

theorem nonlooping_completion:
  assumes "p = ns @ e # rest" and "frequency e = 0 \<and> duration e = 0" and "ns \<noteq> []"
    and "\<forall>n \<in> set (tl ns). \<not> (frequency n = 0 \<and> duration n = 0)"
    and "length ns \<le> 255"
    and "drives t0 ns ts"
  shows "(\<exists>s0 s'. playPattern p name False t0 s = Inr (s0, note_cmds (channel s) (hd ns))
            \<and> poll_all ts s0 =
                 Inr (s', concat (map (note_cmds (channel s)) (tl ns))
                          @ [LedcWriteTone (channel s) 0, LedcWrite (channel s) 0])
            \<and> \<not> isActive s'
            \<and> (\<forall>later. poll_all (ts @ later) s0 = poll_all ts s0))
       \<and> (\<forall>s1 now. isPlaying s1 \<and> \<not> repeat s1 \<and> currentPattern s1 = Some p
              \<and> Suc (unat (patternIndex s1)) = length ns
              \<and> ucast (duration (ns ! unat (patternIndex s1))) \<le> now - noteStartTime s1
            \<longrightarrow> update now s1 = Inr (stop (s1\<lparr>patternIndex := patternIndex s1 + 1\<rparr>)))"
proof -
  let ?s0 = "s\<lparr>currentPattern := Some p, currentName := name, patternIndex := 0,
                  isPlaying := True, repeat := False, noteStartTime := t0\<rparr>"
  have e: "is_end e" using assms(2) by (simp add: is_end_def)
  have mid: "\<forall>n \<in> set (tl ns). \<not> is_end n" using assms(4) by (simp add: is_end_def)
  have start: "playPattern p name False t0 s = Inr (?s0, note_cmds (channel s) (hd ns))"
    by (rule playPattern_in_pattern [OF assms(1) assms(3)])
  have 1: "isPlaying ?s0" and 2: "currentPattern ?s0 = Some p"
    and 3: "unat (patternIndex ?s0) < length ns"
    and 4: "drives (noteStartTime ?s0) (drop (unat (patternIndex ?s0)) ns) ts"
    using assms(3,6) by simp_all
  from run_through [OF assms(1) e mid assms(5) 1 2 3 4]
  obtain s' where r: "poll_all ts ?s0 =
       Inr (s', concat (map (note_cmds (channel s)) (tl ns)) @ silence (channel s))"
    and idle: "\<not> isPlaying s'"
    by (auto simp add: drop_Suc)
  have r': "poll_all ts ?s0 =
       Inr (s', concat (map (note_cmds (channel s)) (tl ns))
                @ [LedcWriteTone (channel s) 0, LedcWrite (channel s) 0])"
    using r by (simp add: silence_def)
  have "poll_all (ts @ later) ?s0 = poll_all ts ?s0" for later
    using r poll_all_idle [OF idle, of later] by (simp add: poll_all_append)
  with start idle r'
  have first: "\<exists>s0 s'. playPattern p name False t0 s = Inr (s0, note_cmds (channel s) (hd ns))
            \<and> poll_all ts s0 =
                 Inr (s', concat (map (note_cmds (channel s)) (tl ns))
                          @ [LedcWriteTone (channel s) 0, LedcWrite (channel s) 0])
            \<and> \<not> isActive s'
            \<and> (\<forall>later. poll_all (ts @ later) s0 = poll_all ts s0)"
    by (auto simp add: isActive_def)
  have second: "update now s1 = Inr (stop (s1\<lparr>patternIndex := patternIndex s1 + 1\<rparr>))"
    if a: "isPlaying s1 \<and> \<not> repeat s1 \<and> currentPattern s1 = Some p
              \<and> Suc (unat (patternIndex s1)) = length ns
              \<and> ucast (duration (ns ! unat (patternIndex s1))) \<le> now - noteStartTime s1"
    for s1 now
  proof -
    from a have i: "unat (patternIndex s1) < length ns" by simp
    then have ib: "unat (patternIndex s1) < length p" using assms(1) by simp
    have pi: "p ! unat (patternIndex s1) = ns ! unat (patternIndex s1)"
      using i assms(1) by (simp add: nth_append)
    have "unat (patternIndex s1) < 255" using i assms(5) by simp
    then have j: "unat (patternIndex s1 + 1) = length ns" using a by (simp add: unat_succ_u8)
    then have jb: "unat (patternIndex s1 + 1) < length p" using assms(1) by simp
    have pe: "p ! unat (patternIndex s1 + 1) = e" using j assms(1) by simp
    from a pi have due: "ucast (duration (p ! unat (patternIndex s1))) \<le> now - noteStartTime s1"
      by simp
    from a have pl: "isPlaying s1" and cp: "currentPattern s1 = Some p" by simp_all
    from update_due [OF pl cp ib due jb] pe e a show ?thesis
      by (simp add: stop_def silence_def)
  qed
  from first second show ?thesis by blast
qed

theorem nonlooping_completion_witness:
  "\<exists>s'. poll_all [99, 100, 150, 300] (scenario_at 0 0 False)
       = Inr (s', [LedcWrite 0 0, LedcWriteTone 0 900, LedcWrite 0 128,
                   LedcWriteTone 0 0, LedcWrite 0 0])
      \<and> \<not> isActive s'
      \<and> poll_all [99, 100, 150, 300, 310, 5000] (scenario_at 0 0 False)
           = poll_all [99, 100, 150, 300] (scenario_at 0 0 False)"
proof -
  have p: "SCENARIO = take 3 SCENARIO @ \<lparr>frequency = 0, duration = 0, volume = 0\<rparr> # []"
    by (simp add: SCENARIO_def)
  have e: "frequency \<lparr>frequency = 0, duration = 0, volume = 0 :: u8\<rparr> = 0
         \<and> duration \<lparr>frequency = 0, duration = 0, volume = 0 :: u8\<rparr> = 0" by simp
  have ne: "take 3 SCENARIO \<noteq> []" by (simp add: SCENARIO_def)
  have mid: "\<forall>n \<in> set (tl (take 3 SCENARIO)). \<not> (frequency n = 0 \<and> duration n = 0)"
    by (simp add: SCENARIO_def)
  have len: "length (take 3 SCENARIO) \<le> 255" by simp
  have d: "drives 0 (take 3 SCENARIO) [99, 100, 150, 300]" by (simp add: SCENARIO_def)
  have s: "playPattern SCENARIO ''scenario'' False 0 buzzer =
     Inr (scenario_at 0 0 False, [LedcWriteTone 0 500, LedcWrite 0 128])"
    by (simp add: playPattern_def playCurrentNote_def note_at_def SCENARIO_def buzzer_def
        IndustrialBuzzer_new_def scenario_at_def)
  have c: "channel buzzer = 0" by (simp add: buzzer_def IndustrialBuzzer_new_def)
  have o: "concat (map (note_cmds 0) (tl (take 3 SCENARIO)))
             = [LedcWrite 0 0, LedcWriteTone 0 900, LedcWrite 0 128]"
    by (simp add: SCENARIO_def note_cmds_def)
  from nonlooping_completion [OF p e ne mid len d, of "''scenario''" buzzer]
  have "\<exists>s0 s'. playPattern SCENARIO ''scenario'' False 0 buzzer
               = Inr (s0, note_cmds (channel buzzer) (hd (take 3 SCENARIO)))
            \<and> poll_all [99, 100, 150, 300] s0 =
                 Inr (s', concat (map (note_cmds (channel buzzer)) (tl (take 3 SCENARIO)))
                          @ [LedcWriteTone (channel buzzer) 0, LedcWrite (channel buzzer) 0])
            \<and> \<not> isActive s'
            \<and> (\<forall>later. poll_all ([99, 100, 150, 300] @ later) s0 = poll_all [99, 100, 150, 300] s0)"
    by blast
  then obtain s' where
    a: "poll_all [99, 100, 150, 300] (scenario_at 0 0 False) =
          Inr (s', [LedcWrite 0 0, LedcWriteTone 0 900, LedcWrite 0 128,
                    LedcWriteTone 0 0, LedcWrite 0 0])"
    and b: "\<not> isActive s'"
    and l: "\<forall>later. poll_all ([99, 100, 150, 300] @ later) (scenario_at 0 0 False)
              = poll_all [99, 100, 150, 300] (scenario_at 0 0 False)"
    unfolding s c o by auto
  from l have "poll_all ([99, 100, 150, 300] @ [310, 5000]) (scenario_at 0 0 False)
              = poll_all [99, 100, 150, 300] (scenario_at 0 0 False)" by (rule spec)
  then have "poll_all [99, 100, 150, 300, 310, 5000] (scenario_at 0 0 False)
              = poll_all [99, 100, 150, 300] (scenario_at 0 0 False)" by (simp only: append.simps)
  with a b show ?thesis by blast
qed

theorem late_poll_still_active_counterexample:
  "playPattern PATTERN_WARNING ''2. Warning'' False 0 buzzer
     = Inr (warning_at 0 0 False, [LedcWriteTone 0 1500, LedcWrite 0 192])
   \<and> poll_all [1000] (warning_at 0 0 False) = Inr (warning_at 1 1000 False, [LedcWrite 0 0])
   \<and> isActive (warning_at 1 1000 False)"
  by (simp add: playPattern_def playCurrentNote_def update_def note_at_def Let_def buzzer_def
      IndustrialBuzzer_new_def warning_at_def PATTERN_WARNING_def isActive_def)

text \<open>
  C5, as the code has it. Take a pattern with at least one and at most 255 steps before
  its end marker, none of the steps after step 0 looking like the marker, started with
  looping enabled. The \<open>update\<close> call that finds the current step's duration elapsed
  and the end marker after it sets the index to 0 and the step start time to the current
  clock value and sends step 0, and leaves the index at 0 whatever the duration of step 0.
  The commands sent repeat cycle after cycle: for every number of cycles of calls that
  leave each step in turn (\<open>drives_cycles\<close>), the sink receives that many copies of
  steps 1 to the last followed by step 0, and the sequencer is back at index 0 with the
  step start time equal to the clock value of the last call. \<open>isActive\<close> stays true
  under any calls of \<open>update\<close>, and \<open>stop\<close> makes it false.
\<close>

theorem looping_restart_periodic:
  assumes "p = ns @ e # rest" and "frequency e = 0 \<and> duration e = 0" and "ns \<noteq> []"
    and "\<forall>n \<in> set (tl ns). \<not> (frequency n = 0 \<and> duration n = 0)"
    and "length ns \<le> 255"
    and "drives_cycles t0 ns tss"
  shows "(\<exists>s0 s'. playPattern p name True t0 s = Inr (s0, note_cmds (channel s) (hd ns))
            \<and> poll_all (concat tss) s0 =
                 Inr (s', concat (replicate (length tss)
                            (concat (map (note_cmds (channel s)) (tl ns))
                             @ note_cmds (channel s) (hd ns))))
            \<and> isActive s' \<and> patternIndex s' = 0
            \<and> noteStartTime s' = (if tss = [] then t0 else last (last tss))
            \<and> (\<forall>us. \<exists>s'' out. poll_all us s0 = Inr (s'', out) \<and> isActive s''
                   \<and> \<not> isActive (fst (stop s''))))
       \<and> (\<forall>s1 now. isPlaying s1 \<and> repeat s1 \<and> currentPattern s1 = Some p
              \<and> Suc (unat (patternIndex s1)) = length ns
              \<and> ucast (duration (ns ! unat (patternIndex s1))) \<le> now - noteStartTime s1
            \<longrightarrow> update now s1 =
                  Inr (s1\<lparr>patternIndex := 0, noteStartTime := now\<rparr>,
                       note_cmds (channel s1) (hd ns)))"
proof -
  let ?s0 = "s\<lparr>currentPattern := Some p, currentName := name, patternIndex := 0,
                  isPlaying := True, repeat := True, noteStartTime := t0\<rparr>"
  have e: "is_end e" using assms(2) by (simp add: is_end_def)
  have mid: "\<forall>n \<in> set (tl ns). \<not> is_end n" using assms(4) by (simp add: is_end_def)
  have start: "playPattern p name True t0 s = Inr (?s0, note_cmds (channel s) (hd ns))"
    by (rule playPattern_in_pattern [OF assms(1) assms(3)])
  have 1: "isPlaying ?s0" and 2: "repeat ?s0" and 3: "currentPattern ?s0 = Some p"
    and 4: "patternIndex ?s0 = 0" and 5: "drives_cycles (noteStartTime ?s0) ns tss"
    using assms(6) by simp_all
  from run_cycles [OF assms(1) e assms(3) mid assms(5) 1 2 3 4 5]
  obtain s' where r: "poll_all (concat tss) ?s0 =
       Inr (s', concat (replicate (length tss)
                  (concat (map (note_cmds (channel s)) (tl ns)) @ note_cmds (channel s) (hd ns))))"
    and f: "isPlaying s'" "patternIndex s' = 0"
      "noteStartTime s' = (if tss = [] then t0 else last (last tss))"
    by auto
  have inv: "in_pattern p (length ns) ?s0" using assms(3) by (simp add: in_pattern_def)
  have always: "\<exists>s'' out. poll_all us ?s0 = Inr (s'', out) \<and> isActive s''
                   \<and> \<not> isActive (fst (stop s''))" for us
    using poll_all_keeps_in_pattern [OF assms(1) e assms(3) inv, of us]
    by (auto simp add: isActive_def stop_def)
  from start r f always
  have first: "\<exists>s0 s'. playPattern p name True t0 s = Inr (s0, note_cmds (channel s) (hd ns))
            \<and> poll_all (concat tss) s0 =
                 Inr (s', concat (replicate (length tss)
                            (concat (map (note_cmds (channel s)) (tl ns))
                             @ note_cmds (channel s) (hd ns))))
            \<and> isActive s' \<and> patternIndex s' = 0
            \<and> noteStartTime s' = (if tss = [] then t0 else last (last tss))
            \<and> (\<forall>us. \<exists>s'' out. poll_all us s0 = Inr (s'', out) \<and> isActive s''
                   \<and> \<not> isActive (fst (stop s'')))"
    by (auto simp add: isActive_def)
  have second: "update now s1 =
                  Inr (s1\<lparr>patternIndex := 0, noteStartTime := now\<rparr>,
                       note_cmds (channel s1) (hd ns))"
    if a: "isPlaying s1 \<and> repeat s1 \<and> currentPattern s1 = Some p
              \<and> Suc (unat (patternIndex s1)) = length ns
              \<and> ucast (duration (ns ! unat (patternIndex s1))) \<le> now - noteStartTime s1"
    for s1 now
  proof -
    from a have i: "unat (patternIndex s1) < length ns" by simp
    then have ib: "unat (patternIndex s1) < length p" using assms(1) by simp
    have pi: "p ! unat (patternIndex s1) = ns ! unat (patternIndex s1)"
      using i assms(1) by (simp add: nth_append)
    have "unat (patternIndex s1) < 255" using i assms(5) by simp
    then have j: "unat (patternIndex s1 + 1) = length ns" using a by (simp add: unat_succ_u8)
    then have jb: "unat (patternIndex s1 + 1) < length p" using assms(1) by simp
    have pe: "p ! unat (patternIndex s1 + 1) = e" using j assms(1) by simp
    have p0: "p ! 0 = hd ns" using assms(1,3) by (cases ns) simp_all
    from a pi have due: "ucast (duration (p ! unat (patternIndex s1))) \<le> now - noteStartTime s1"
      by simp
    from a have pl: "isPlaying s1" and cp: "currentPattern s1 = Some p" by simp_all
    from update_due [OF pl cp ib due jb] pe e a p0 show ?thesis by simp
  qed
  from first second show ?thesis by blast
qed

theorem looping_restart_periodic_witness:
  "\<exists>s'. poll_all [99, 100, 150, 300, 400, 450, 600] (scenario_at 0 0 True)
       = Inr (s', [LedcWrite 0 0, LedcWriteTone 0 900, LedcWrite 0 128,
                   LedcWriteTone 0 500, LedcWrite 0 128,
                   LedcWrite 0 0, LedcWriteTone 0 900, LedcWrite 0 128,
                   LedcWriteTone 0 500, LedcWrite 0 128])
      \<and> isActive s' \<and> patternIndex s' = 0 \<and> noteStartTime s' = 600"
proof -
  have p: "SCENARIO = take 3 SCENARIO @ \<lparr>frequency = 0, duration = 0, volume = 0\<rparr> # []"
    by (simp add: SCENARIO_def)
  have e: "frequency \<lparr>frequency = 0, duration = 0, volume = 0 :: u8\<rparr> = 0
         \<and> duration \<lparr>frequency = 0, duration = 0, volume = 0 :: u8\<rparr> = 0" by simp
  have ne: "take 3 SCENARIO \<noteq> []" by (simp add: SCENARIO_def)
  have mid: "\<forall>n \<in> set (tl (take 3 SCENARIO)). \<not> (frequency n = 0 \<and> duration n = 0)"
    by (simp add: SCENARIO_def)
  have len: "length (take 3 SCENARIO) \<le> 255" by simp
  have d: "drives_cycles 0 (take 3 SCENARIO) [[99, 100, 150, 300], [400, 450, 600]]"
    by (simp add: SCENARIO_def)
  have s: "playPattern SCENARIO ''scenario'' True 0 buzzer =
     Inr (scenario_at 0 0 True, [LedcWriteTone 0 500, LedcWrite 0 128])"
    by (simp add: playPattern_def playCurrentNote_def note_at_def SCENARIO_def buzzer_def
        IndustrialBuzzer_new_def scenario_at_def)
  have c: "channel buzzer = 0" by (simp add: buzzer_def IndustrialBuzzer_new_def)
  have l2: "length [[99, 100, 150, 300], [400, 450, 600 :: u32]] = Suc (Suc 0)" by simp
  have cyc: "concat (map (note_cmds 0) (tl (take 3 SCENARIO))) @ note_cmds 0 (hd (take 3 SCENARIO))
           = [LedcWrite 0 0, LedcWriteTone 0 900, LedcWrite 0 128,
              LedcWriteTone 0 500, LedcWrite 0 128]"
    by (simp add: SCENARIO_def note_cmds_def)
  have o: "concat (replicate (length [[99, 100, 150, 300], [400, 450, 600 :: u32]])
             (concat (map (note_cmds 0) (tl (take 3 SCENARIO))) @ note_cmds 0 (hd (take 3 SCENARIO))))
           = [LedcWrite 0 0, LedcWriteTone 0 900, LedcWrite 0 128,
                   LedcWriteTone 0 500, LedcWrite 0 128,
                   LedcWrite 0 0, LedcWriteTone 0 900, LedcWrite 0 128,
                   LedcWriteTone 0 500, LedcWrite 0 128]"
    unfolding l2 cyc by simp
  have cc: "concat [[99, 100, 150, 300], [400, 450, 600 :: u32]] = [99, 100, 150, 300, 400, 450, 600]"
    by simp
  have lst: "(if [[99, 100, 150, 300], [400, 450, 600 :: u32]] = [] then 0
              else last (last [[99, 100, 150, 300], [400, 450, 600 :: u32]])) = 600"
    by simp
  from looping_restart_periodic [OF p e ne mid len d, of "''scenario''" buzzer]
  have "\<exists>s0 s'. playPattern SCENARIO ''scenario'' True 0 buzzer
               = Inr (s0, note_cmds (channel buzzer) (hd (take 3 SCENARIO)))
            \<and> poll_all (concat [[99, 100, 150, 300], [400, 450, 600]]) s0 =
                 Inr (s', concat (replicate (length [[99, 100, 150, 300], [400, 450, 600 :: u32]])
                            (concat (map (note_cmds (channel buzzer)) (tl (take 3 SCENARIO)))
                             @ note_cmds (channel buzzer) (hd (take 3 SCENARIO)))))
            \<and> isActive s' \<and> patternIndex s' = 0
            \<and> noteStartTime s' = (if [[99, 100, 150, 300], [400, 450, 600 :: u32]] = [] then 0
              else last (last [[99, 100, 150, 300], [400, 450, 600 :: u32]]))"
    by blast
  then show ?thesis unfolding s c o cc lst by auto
qed

theorem loop_restart_counterexample:
  "update 60 (ack_at 0 0 True) = Inr (ack_at 0 60 True, [LedcWriteTone 0 1500, LedcWrite 0 64])
   \<and> update 100 (ack_at 0 60 True) = Inr (ack_at 0 60 True, [])
   \<and> update 110 (ack_at 0 60 True) = Inr (ack_at 0 110 True, [LedcWriteTone 0 1500, LedcWrite 0 64])
   \<and> update 100 \<lparr>pin = 33, channel = 0, currentPattern = Some zero_first, patternIndex = 1,
                   noteStartTime = 0, isPlaying = True, repeat = True, currentName = ''z''\<rparr>
       = Inr (\<lparr>pin = 33, channel = 0, currentPattern = Some zero_first, patternIndex = 0,
                noteStartTime = 100, isPlaying = True, repeat = True, currentName = ''z''\<rparr>,
              [LedcWriteTone 0 800, LedcWrite 0 128])"
  by (simp add: update_def note_at_def Let_def playCurrentNote_def ack_at_def PATTERN_ACK_def
      zero_first_def)

end
